theory Spec2Isabelle
  imports Complex_Main "HOL-Library.Word"
begin

section \<open>Python values used by the parking API\<close>

text \<open>
  Numbers that the detector hands over as floating point (box corners, class indices,
  confidences) are modelled by their exact finite value, a rational. Python integers are
  \<open>int\<close>. A label is a string over the code points below 256; on these
  \<^verbatim>\<open>str.lower\<close> works character by character.
\<close>

datatype py_error = KeyError | IndexError

definition py_int :: "rat \<Rightarrow> int" where
  \<comment> \<open>\<^verbatim>\<open>int(x)\<close> and \<^verbatim>\<open>.astype(int)\<close>: truncation towards zero\<close>
  "py_int x = (if 0 \<le> x then \<lfloor>x\<rfloor> else \<lceil>x\<rceil>)"

definition lower_char :: "char \<Rightarrow> char" where
  "lower_char c =
     (let n = (of_char c :: nat)
      in if (65 \<le> n \<and> n \<le> 90) \<or> (192 \<le> n \<and> n \<le> 222 \<and> n \<noteq> 215)
         then char_of (n + 32) else c)"

definition lower :: "string \<Rightarrow> string" where
  "lower s = map lower_char s"

subsection \<open>Formatting a number with two decimals\<close>

definition digit_char :: "nat \<Rightarrow> char" where
  "digit_char d = char_of (48 + d)"

fun decimal :: "nat \<Rightarrow> string" where
  "decimal n = (if n < 10 then [digit_char n] else decimal (n div 10) @ [digit_char (n mod 10)])"

definition round_half_even :: "rat \<Rightarrow> int" where
  "round_half_even q =
     (let f = \<lfloor>q\<rfloor>; r = q - of_int f
      in if r < 1 / 2 then f else if 1 / 2 < r then f + 1
         else if even f then f else f + 1)"

definition format_2f :: "rat \<Rightarrow> string" where
  \<comment> \<open>the format specification \<^verbatim>\<open>:.2f\<close> on a finite value\<close>
  "format_2f x =
     (let n = nat (round_half_even (\<bar>x\<bar> * 100))
      in (if x < 0 then ''-'' else '''') @ decimal (n div 100) @ ''.''
         @ [digit_char (n mod 100 div 10), digit_char (n mod 10)])"

section \<open>Detector results\<close>

type_synonym bbox = "rat \<times> rat \<times> rat \<times> rat"

record boxes =
  xyxy :: "bbox list"
  cls :: "rat list"
  conf :: "rat list"

record yolo_result =
  names :: "int \<rightharpoonup> string"
  boxes :: boxes

section \<open>Detection helpers\<close>

definition FREE_LABELS :: "string set" where
  "FREE_LABELS = {''free'', ''open'', ''vacant'', ''empty'', ''available''}"

definition OCC_LABELS :: "string set" where
  "OCC_LABELS = {''occupied'', ''taken'', ''parked'', ''blocked''}"

subsection \<open>count_spots\<close>

fun count_loop :: "(int \<rightharpoonup> string) \<Rightarrow> int \<times> int \<Rightarrow> rat list \<Rightarrow> py_error + int \<times> int" where
  "count_loop nms (open_cnt, occ_cnt) [] = Inr (open_cnt, occ_cnt)"
| "count_loop nms (open_cnt, occ_cnt) (c # cs) =
     (case nms (py_int (of_int (py_int c))) of  \<comment> \<open>\<^verbatim>\<open>.astype(int)\<close>, then \<^verbatim>\<open>int(cls)\<close>\<close>
        None \<Rightarrow> Inl KeyError
      | Some nm \<Rightarrow>
          (let lbl = lower nm
           in if lbl \<in> FREE_LABELS then count_loop nms (open_cnt + 1, occ_cnt) cs
              else if lbl \<in> OCC_LABELS then count_loop nms (open_cnt, occ_cnt + 1) cs
              else count_loop nms (open_cnt, occ_cnt) cs))"

definition count_spots :: "yolo_result \<Rightarrow> py_error + int \<times> int" where
  "count_spots result = count_loop (names result) (0, 0) (cls (boxes result))"


section \<open>Images, arrays and OpenCV\<close>

text \<open>
  OpenCV is used through six functions. Their pixel semantics is not part of this
  program, so the model takes them as the fields of a record, over any type of image
  values. An image array lives in a store of arrays; a Python reference to an array is
  its index, and \<^verbatim>\<open>img.copy()\<close> allocates a new cell. A reference is always
  to a live array, so it is below the length of the store.
\<close>

type_synonym byte = "8 word"
type_synonym point = "int \<times> int"
type_synonym scalar = "int \<times> int \<times> int"

definition FONT_HERSHEY_SIMPLEX :: int where
  "FONT_HERSHEY_SIMPLEX = 0"

record 'img cv2 =
  getTextSize :: "string \<Rightarrow> int \<Rightarrow> rat \<Rightarrow> int \<Rightarrow> (int \<times> int) \<times> int"
  rectangle :: "'img \<Rightarrow> point \<Rightarrow> point \<Rightarrow> scalar \<Rightarrow> int \<Rightarrow> 'img"
  addWeighted :: "'img \<Rightarrow> rat \<Rightarrow> 'img \<Rightarrow> rat \<Rightarrow> rat \<Rightarrow> 'img"
  putText :: "'img \<Rightarrow> string \<Rightarrow> point \<Rightarrow> int \<Rightarrow> rat \<Rightarrow> scalar \<Rightarrow> int \<Rightarrow> 'img"
  imdecode :: "byte list \<Rightarrow> 'img option"
  imwrite_jpg :: "'img \<Rightarrow> byte list"

type_synonym 'img store = "'img list"

definition ndarray_copy :: "'img store \<Rightarrow> nat \<Rightarrow> 'img store \<times> nat" where
  "ndarray_copy \<sigma> a = (\<sigma> @ [\<sigma> ! a], length \<sigma>)"

subsection \<open>draw_detections\<close>

text \<open>The body of the loop: one detection is drawn on the array \<open>img\<close>, in place.\<close>

definition draw_box ::
  "'img cv2 \<Rightarrow> (int \<rightharpoonup> string) \<Rightarrow> 'img store \<Rightarrow> nat \<Rightarrow> bbox \<times> rat \<times> rat \<Rightarrow> py_error + 'img store" where
  "draw_box cv nms \<sigma> img d =
     (case d of ((bx1, by1, bx2, by2), c, cf) \<Rightarrow>
      let x1 = py_int bx1; y1 = py_int by1; x2 = py_int bx2; y2 = py_int by2
      in (case nms (py_int c) of
           None \<Rightarrow> Inl KeyError
         | Some nm \<Rightarrow>
             let lbl = lower nm;
                 (\<sigma>', color, thickness) =
                   (if lbl \<in> FREE_LABELS then
                      let color = (0, 200, 0);
                          thickness = 3;
                          txt = ''Free '' @ format_2f cf;
                          ((tw, th), baseline) = getTextSize cv txt FONT_HERSHEY_SIMPLEX (6 / 10) 2;
                          y0 = max 0 (y1 - th - 6);
                          (\<sigma>1, overlay) = ndarray_copy \<sigma> img;
                          \<sigma>2 = \<sigma>1[overlay := rectangle cv (\<sigma>1 ! overlay) (x1, y0) (x1 + tw + 8, y1) color (- 1)];
                          \<sigma>3 = \<sigma>2[img := addWeighted cv (\<sigma>2 ! overlay) (35 / 100) (\<sigma>2 ! img) (65 / 100) 0];
                          \<sigma>4 = \<sigma>3[img := putText cv (\<sigma>3 ! img) txt (x1 + 4, y1 - 4)
                                           FONT_HERSHEY_SIMPLEX (6 / 10) (255, 255, 255) 2]
                      in (\<sigma>4, color, thickness)
                    else (\<sigma>, (50, 50, 200), 1))
             in Inr (\<sigma>'[img := rectangle cv (\<sigma>' ! img) (x1, y1) (x2, y2) color thickness])))"

fun draw_loop ::
  "'img cv2 \<Rightarrow> (int \<rightharpoonup> string) \<Rightarrow> 'img store \<Rightarrow> nat \<Rightarrow> (bbox \<times> rat \<times> rat) list \<Rightarrow> py_error + 'img store" where
  "draw_loop cv nms \<sigma> img [] = Inr \<sigma>"
| "draw_loop cv nms \<sigma> img (d # ds) =
     (case draw_box cv nms \<sigma> img d of
        Inl e \<Rightarrow> Inl e
      | Inr \<sigma>' \<Rightarrow> draw_loop cv nms \<sigma>' img ds)"

definition draw_detections ::
  "'img cv2 \<Rightarrow> 'img store \<Rightarrow> nat \<Rightarrow> yolo_result \<Rightarrow> py_error + 'img store \<times> nat" where
  "draw_detections cv \<sigma> img result =
     (let nms = names result; bs = boxes result
      in (case draw_loop cv nms \<sigma> img (zip (xyxy bs) (zip (cls bs) (conf bs))) of
            Inl e \<Rightarrow> Inl e
          | Inr \<sigma>' \<Rightarrow> Inr (\<sigma>', img)))"

section \<open>The HTTP routes\<close>

text \<open>
  The state that outlives a request is the file at \<^verbatim>\<open>LAST_PATH\<close> (\<open>None\<close> while
  it does not exist) and the calls the detector has received. A handler returns the new
  state and either a response or the exception that left it. Requests are handled one
  after another; the write of \<^verbatim>\<open>cv2.imwrite\<close> is taken to succeed.
\<close>

record 'img server =
  last_annotated :: "byte list option"
  model_calls :: "('img \<times> rat \<times> rat) list"

record 'img world =
  cv2 :: "'img cv2"
  api_model :: "'img \<Rightarrow> rat \<Rightarrow> rat \<Rightarrow> yolo_result list"
  model_names :: "(int \<times> string) list"

record request =
  files :: "string \<rightharpoonup> byte list"

datatype json = JBool bool | JInt int | JStr string | JObj "(int \<times> string) list"

datatype body = Json "(string \<times> json) list" | File "byte list" string

datatype outcome = Response body nat | Raised py_error

definition detect_route :: "'img world \<Rightarrow> 'img server \<Rightarrow> request \<Rightarrow> 'img server \<times> outcome" where
  \<open>detect_route w s req =
     (case files req ''image'' of
        None \<Rightarrow> (s, Response (Json [(''error'', JStr ''missing file field "image"'')]) 400)
      | Some data \<Rightarrow>
          if data = [] then (s, Response (Json [(''error'', JStr ''empty upload'')]) 400)
          else
            (case imdecode (cv2 w) data of
               None \<Rightarrow> (s, Response (Json [(''error'', JStr ''decode failed (bad image bytes)'')]) 400)
             | Some im \<Rightarrow>
                 let \<sigma> = [im]; img = 0;
                     s1 = s\<lparr>model_calls := model_calls s @ [(im, 35 / 100, 50 / 100)]\<rparr>
                 in (case api_model w (\<sigma> ! img) (35 / 100) (50 / 100) of
                      [] \<Rightarrow> (s1, Raised IndexError)
                    | result # _ \<Rightarrow>
                        (case count_spots result of
                           Inl e \<Rightarrow> (s1, Raised e)
                         | Inr (open_cnt, occ_cnt) \<Rightarrow>
                             let (\<sigma>1, cp) = ndarray_copy \<sigma> img
                             in (case draw_detections (cv2 w) \<sigma>1 cp result of
                                  Inl e \<Rightarrow> (s1, Raised e)
                                | Inr (\<sigma>2, annotated) \<Rightarrow>
                                    let s2 = s1\<lparr>last_annotated := Some (imwrite_jpg (cv2 w) (\<sigma>2 ! annotated))\<rparr>;
                                        total = open_cnt + occ_cnt
                                    in (s2, Response (Json [(''ok'', JBool True),
                                                            (''free'', JInt open_cnt),
                                                            (''occupied'', JInt occ_cnt),
                                                            (''total'', JInt total),
                                                            (''openCount'', JInt open_cnt),
                                                            (''occupiedCount'', JInt occ_cnt)]) 200))))))\<close>

definition get_image :: "'img server \<Rightarrow> 'img server \<times> outcome" where
  "get_image s =
     (case last_annotated s of
        None \<Rightarrow> (s, Response (Json [(''error'', JStr ''No image available'')]) 404)
      | Some bytes \<Rightarrow> (s, Response (File bytes ''image/jpeg'') 200))"

definition status :: "'img world \<Rightarrow> 'img server \<Rightarrow> 'img server \<times> outcome" where
  "status w s =
     (s, Response (Json [(''status'', JStr ''running''), (''model'', JStr ''best.pt''),
                         (''classes'', JObj (model_names w))]) 200)"

datatype call = Detect request | GetImage | Status

fun handle :: "'img world \<Rightarrow> 'img server \<Rightarrow> call \<Rightarrow> 'img server \<times> outcome" where
  "handle w s (Detect req) = detect_route w s req"
| "handle w s GetImage = get_image s"
| "handle w s Status = status w s"

fun serve :: "'img world \<Rightarrow> 'img server \<Rightarrow> call list \<Rightarrow> 'img server" where
  "serve w s [] = s"
| "serve w s (c # cs) = serve w (fst (handle w s c)) cs"

section \<open>The specification's vocabulary\<close>

text \<open>
  The specification speaks of a classifier with three categories, which the code has
  only as the two tests of its loops. \<open>classify\<close> follows the specification's words
  and is compared with the code below.
\<close>

datatype category = Free | Occupied | Unknown

definition classify :: "string \<Rightarrow> category" where
  "classify label =
     (if lower label \<in> FREE_LABELS then Free
      else if lower label \<in> OCC_LABELS then Occupied
      else Unknown)"

definition label_of :: "yolo_result \<Rightarrow> rat \<Rightarrow> string" where
  "label_of result c = the (names result (py_int c))"

definition count_category :: "yolo_result \<Rightarrow> category \<Rightarrow> int" where
  "count_category result k =
     int (length (filter (\<lambda>c. classify (label_of result c) = k) (cls (boxes result))))"

text \<open>The image that a call of \<open>draw_detections\<close> returns, or the exception it raises.\<close>

definition returned_image :: "py_error + 'img store \<times> nat \<Rightarrow> py_error + 'img" where
  "returned_image r = (case r of Inl e \<Rightarrow> Inl e | Inr (\<sigma>, a) \<Rightarrow> Inr (\<sigma> ! a))"

fun is_ok :: "outcome \<Rightarrow> bool" where
  "is_ok (Response b code) = (code = 200)"
| "is_ok (Raised e) = False"

text \<open>Whether one of the calls, handled in order from state \<open>s\<close>, is a \<^verbatim>\<open>/detect\<close> that succeeds.\<close>

fun detect_succeeded :: "'img world \<Rightarrow> 'img server \<Rightarrow> call list \<Rightarrow> bool" where
  "detect_succeeded w s [] = False"
| "detect_succeeded w s (Detect req # cs) =
     (is_ok (snd (detect_route w s req)) \<or> detect_succeeded w (fst (detect_route w s req)) cs)"
| "detect_succeeded w s (c # cs) = detect_succeeded w (fst (handle w s c)) cs"

section \<open>Two implementations of the OpenCV interface\<close>

text \<open>
  The theorems hold for every implementation of the interface. Their instances below are
  evaluated on two of them. The first keeps, for an image, the calls that drew it; its
  text metrics and its codec are stand-ins.
\<close>

datatype canvas =
    Decoded "byte list"
  | Rect canvas point point scalar int
  | Blend canvas rat canvas rat rat
  | Text canvas string point int rat scalar int

definition cv_calls :: "canvas cv2" where
  "cv_calls =
     \<lparr>getTextSize = (\<lambda>txt face scale thick. ((11 * int (length txt), 13), 5)),
      rectangle = Rect,
      addWeighted = Blend,
      putText = Text,
      imdecode = (\<lambda>data. if take 2 data = [0xFF, 0xD8] then Some (Decoded data) else None),
      imwrite_jpg = (\<lambda>im. [0xFF, 0xD8, of_nat (size im), 0xFF, 0xD9])\<rparr>"






text \<open>A detector that finds one free and one occupied spot in whatever it is shown.\<close>

definition two_spots :: yolo_result where
  "two_spots =
     \<lparr>names = [0 \<mapsto> ''Free'', 1 \<mapsto> ''occupied'', 2 \<mapsto> ''cone''],
      boxes = \<lparr>xyxy = [(10, 40, 60, 90), (71 / 2, 5, 80, 30), (1, 2, 3, 4)],
               cls = [0, 1, 2],
               conf = [87 / 100, 1 / 2, 2 / 5]\<rparr>\<rparr>"

definition test_world :: "canvas world" where
  "test_world =
     \<lparr>cv2 = cv_calls,
      api_model = (\<lambda>im c iou. [two_spots]),
      model_names = [(0, ''Free''), (1, ''occupied''), (2, ''cone'')]\<rparr>"

definition fresh_server :: "canvas server" where
  "fresh_server = \<lparr>last_annotated = None, model_calls = []\<rparr>"

definition jpeg_upload :: request where
  "jpeg_upload = \<lparr>files = [''image'' \<mapsto> [0xFF, 0xD8, 0x01, 0xFF, 0xD9]]\<rparr>"

text \<open>The same labels, found elsewhere and with other confidences.\<close>

definition moved_spots :: yolo_result where
  "moved_spots =
     \<lparr>names = [0 \<mapsto> ''Free'', 1 \<mapsto> ''occupied'', 2 \<mapsto> ''cone''],
      boxes = \<lparr>xyxy = [(0, 0, 1, 1), (300, 200, 310, 220), (7, 7, 9, 9)],
               cls = [0, 1, 2],
               conf = [36 / 100, 99 / 100, 1]\<rparr>\<rparr>"

text \<open>Three requests that are refused, and a server that has answered one request before.\<close>



definition no_upload :: request where
  "no_upload = \<lparr>files = Map.empty\<rparr>"

definition empty_upload :: request where
  "empty_upload = \<lparr>files = [''image'' \<mapsto> []]\<rparr>"

definition text_upload :: request where
  "text_upload = \<lparr>files = [''image'' \<mapsto> [0x68, 0x69]]\<rparr>"

definition used_server :: "canvas server" where
  "used_server =
     \<lparr>last_annotated = Some [0xFF, 0xD8, 0x07, 0xFF, 0xD9],
      model_calls = [(Decoded [0xFF, 0xD8], 35 / 100, 50 / 100)]\<rparr>"

text \<open>A server that starts beside the file an earlier process has written.\<close>




definition restarted_server :: "canvas server" where
  "restarted_server = \<lparr>last_annotated = Some [0xFF, 0xD8, 0x07, 0xFF, 0xD9], model_calls = []\<rparr>"


section \<open>Counting\<close>


lemma py_int_of_int: "py_int (of_int n) = n"
  by (simp add: py_int_def)

lemma count_loop_classify:
  assumes "\<forall>c\<in>set cs. nms (py_int c) \<noteq> None"
  shows "count_loop nms (f, k) cs =
           Inr (f + int (length (filter (\<lambda>c. classify (the (nms (py_int c))) = Free) cs)),
                k + int (length (filter (\<lambda>c. classify (the (nms (py_int c))) = Occupied) cs)))"
  using assms
proof (induction cs arbitrary: f k)
  case Nil
  then show ?case by simp
next
  case (Cons c cs)
  then obtain nm where nm: "nms (py_int c) = Some nm" by auto
  from Cons.prems have rest: "\<forall>c\<in>set cs. nms (py_int c) \<noteq> None" by simp
  show ?case
    by (simp add: nm py_int_of_int classify_def Let_def Cons.IH [OF rest])
qed

lemma count_spots_classify:
  assumes "\<forall>c\<in>set (cls (boxes result)). py_int c \<in> dom (names result)"
  shows "count_spots result = Inr (count_category result Free, count_category result Occupied)"
proof -
  from assms have "\<forall>c\<in>set (cls (boxes result)). names result (py_int c) \<noteq> None"
    by (simp add: dom_def)
  then show ?thesis
    by (simp add: count_spots_def count_category_def label_of_def count_loop_classify)
qed

lemma count_category_sum:
  "count_category result Free + count_category result Occupied + count_category result Unknown
     = int (length (cls (boxes result)))"
proof -
  have "length (filter (\<lambda>c. f c = Free) xs) + length (filter (\<lambda>c. f c = Occupied) xs)
          + length (filter (\<lambda>c. f c = Unknown) xs) = length xs" for f :: "rat \<Rightarrow> category" and xs
  proof (induction xs)
    case Nil
    show ?case by simp
  next
    case (Cons x xs)
    then show ?case by (cases "f x") simp_all
  qed
  then show ?thesis
    unfolding count_category_def by (metis of_nat_add)
qed

lemma detect_route_ok_body:
  assumes "snd (detect_route w s req) = Response b 200"
  shows "\<exists>data im result rest open_cnt occ_cnt.
           files req ''image'' = Some data \<and> imdecode (cv2 w) data = Some im
           \<and> api_model w im (35 / 100) (50 / 100) = result # rest
           \<and> count_spots result = Inr (open_cnt, occ_cnt)
           \<and> b = Json [(''ok'', JBool True), (''free'', JInt open_cnt), (''occupied'', JInt occ_cnt),
                        (''total'', JInt (open_cnt + occ_cnt)), (''openCount'', JInt open_cnt),
                        (''occupiedCount'', JInt occ_cnt)]"
  using assms
  by (auto simp: detect_route_def Let_def ndarray_copy_def
           split: option.splits if_splits list.splits sum.splits prod.splits)


lemma count_loop_mono:
  "count_loop nms (f, k) cs = Inr (f', k') \<Longrightarrow> f \<le> f' \<and> k \<le> k'"
proof (induction cs arbitrary: f k)
  case Nil
  then show ?case by simp
next
  case (Cons c cs)
  then show ?case
    by (fastforce simp: Let_def split: option.splits if_splits)
qed

lemma count_spots_nonneg:
  "count_spots result = Inr (open_cnt, occ_cnt) \<Longrightarrow> 0 \<le> open_cnt \<and> 0 \<le> occ_cnt"
  unfolding count_spots_def by (rule count_loop_mono)

lemma draw_box_returns:
  assumes "nms (py_int c) \<noteq> None"
  shows "\<exists>\<sigma>'. draw_box cv nms \<sigma> img (b, c, cf) = Inr \<sigma>'"
  using assms
  by (cases b) (auto simp: draw_box_def Let_def split: prod.splits)

lemma draw_loop_returns:
  assumes "\<forall>d\<in>set ds. nms (py_int (fst (snd d))) \<noteq> None"
  shows "\<exists>\<sigma>'. draw_loop cv nms \<sigma> img ds = Inr \<sigma>'"
  using assms
proof (induction ds arbitrary: \<sigma>)
  case Nil
  show ?case by simp
next
  case (Cons d ds)
  obtain b c cf where d: "d = (b, c, cf)" by (cases d) auto
  with Cons.prems have "nms (py_int c) \<noteq> None" by simp
  then have "\<exists>\<sigma>'. draw_box cv nms \<sigma> img (b, c, cf) = Inr \<sigma>'"
    by (rule draw_box_returns)
  then obtain \<sigma>1 where step: "draw_box cv nms \<sigma> img (b, c, cf) = Inr \<sigma>1" by blast
  from Cons.prems have "\<forall>d\<in>set ds. nms (py_int (fst (snd d))) \<noteq> None" by simp
  from Cons.IH [OF this] show ?case by (simp add: d step)
qed

lemma draw_detections_returns:
  assumes "\<forall>c\<in>set (cls (boxes result)). py_int c \<in> dom (names result)"
  shows "\<exists>\<sigma>'. draw_detections cv \<sigma> img result = Inr (\<sigma>', img)"
proof -
  have "\<forall>d\<in>set (zip (xyxy (boxes result)) (zip (cls (boxes result)) (conf (boxes result)))).
          names result (py_int (fst (snd d))) \<noteq> None"
  proof
    fix d
    assume "d \<in> set (zip (xyxy (boxes result)) (zip (cls (boxes result)) (conf (boxes result))))"
    moreover obtain b c cf where d: "d = (b, c, cf)" by (cases d) auto
    ultimately have "(c, cf) \<in> set (zip (cls (boxes result)) (conf (boxes result)))"
      by (auto dest: set_zip_rightD)
    then have "c \<in> set (cls (boxes result))"
      by (rule set_zip_leftD)
    with assms d show "names result (py_int (fst (snd d))) \<noteq> None" by auto
  qed
  from draw_loop_returns [OF this, of cv \<sigma> img]
  obtain \<sigma>' where
    "draw_loop cv (names result) \<sigma> img
       (zip (xyxy (boxes result)) (zip (cls (boxes result)) (conf (boxes result)))) = Inr \<sigma>'"
    by blast
  then show ?thesis by (simp add: draw_detections_def Let_def)
qed

lemma detect_route_success:
  assumes up: "files req ''image'' = Some data" and ne: "data \<noteq> []"
    and dec: "imdecode (cv2 w) data = Some im"
    and inf: "api_model w im (35 / 100) (50 / 100) = result # rest"
    and wf: "\<forall>c\<in>set (cls (boxes result)). py_int c \<in> dom (names result)"
  shows "\<exists>\<sigma>'. draw_detections (cv2 w) [im, im] 1 result = Inr (\<sigma>', 1)
           \<and> detect_route w s req =
               (s\<lparr>model_calls := model_calls s @ [(im, 35 / 100, 50 / 100)],
                  last_annotated := Some (imwrite_jpg (cv2 w) (\<sigma>' ! 1))\<rparr>,
                Response (Json [(''ok'', JBool True),
                                (''free'', JInt (count_category result Free)),
                                (''occupied'', JInt (count_category result Occupied)),
                                (''total'', JInt (count_category result Free + count_category result Occupied)),
                                (''openCount'', JInt (count_category result Free)),
                                (''occupiedCount'', JInt (count_category result Occupied))]) 200)"
proof -
  from draw_detections_returns [OF wf]
  obtain \<sigma>' where drawn: "draw_detections (cv2 w) [im, im] 1 result = Inr (\<sigma>', 1)" by blast
  have "detect_route w s req =
               (s\<lparr>model_calls := model_calls s @ [(im, 35 / 100, 50 / 100)],
                  last_annotated := Some (imwrite_jpg (cv2 w) (\<sigma>' ! 1))\<rparr>,
                Response (Json [(''ok'', JBool True),
                                (''free'', JInt (count_category result Free)),
                                (''occupied'', JInt (count_category result Occupied)),
                                (''total'', JInt (count_category result Free + count_category result Occupied)),
                                (''openCount'', JInt (count_category result Free)),
                                (''occupiedCount'', JInt (count_category result Occupied))]) 200)"
    using ne inf drawn
    by (simp add: detect_route_def up dec count_spots_classify [OF wf] ndarray_copy_def Let_def)
  with drawn show ?thesis by blast
qed

lemma two_spots_labelled: "\<forall>c\<in>set (cls (boxes two_spots)). py_int c \<in> dom (names two_spots)"
  by (simp add: two_spots_def py_int_def)

lemma two_spots_free: "count_category two_spots Free = 1"
  by code_simp

lemma two_spots_occupied: "count_category two_spots Occupied = 1"
  by code_simp

lemma two_spots_unknown: "count_category two_spots Unknown = 1"
  by code_simp

lemma detect_two_spots:
  "snd (detect_route test_world fresh_server jpeg_upload) =
     Response (Json [(''ok'', JBool True), (''free'', JInt 1), (''occupied'', JInt 1),
                     (''total'', JInt 2), (''openCount'', JInt 1), (''occupiedCount'', JInt 1)]) 200"
proof -
  have up: "files jpeg_upload ''image'' = Some [0xFF, 0xD8, 0x01, 0xFF, 0xD9]"
    by (simp add: jpeg_upload_def)
  have dec: "imdecode (cv2 test_world) [0xFF, 0xD8, 0x01, 0xFF, 0xD9]
               = Some (Decoded [0xFF, 0xD8, 0x01, 0xFF, 0xD9])"
    by (simp add: test_world_def cv_calls_def)
  have inf: "api_model test_world (Decoded [0xFF, 0xD8, 0x01, 0xFF, 0xD9]) (35 / 100) (50 / 100)
               = two_spots # []"
    by (simp add: test_world_def)
  from detect_route_success [OF up _ dec inf two_spots_labelled, of fresh_server]
  show ?thesis
    by (auto simp: two_spots_free two_spots_occupied)
qed

text \<open>
  Claim C1. On a detector result whose class indices all have a name, \<open>count_spots\<close>
  returns two counts that are not negative: the detections classified Free and those
  classified Occupied. Detections of any other label are in neither count, so the two
  counts add up to the number of detections less the Unknown ones. A result without
  detections gives \<open>(0, 0)\<close>. The total that \<^verbatim>\<open>/detect\<close> reports is the sum of the
  two counts it reports.
\<close>

theorem count_spots_total:
  "((\<forall>c\<in>set (cls (boxes result)). py_int c \<in> dom (names result)) \<longrightarrow>
      (\<exists>open_cnt occ_cnt.
         count_spots result = Inr (open_cnt, occ_cnt) \<and> 0 \<le> open_cnt \<and> 0 \<le> occ_cnt
         \<and> open_cnt = count_category result Free
         \<and> occ_cnt = count_category result Occupied
         \<and> open_cnt + occ_cnt
             = int (length (cls (boxes result))) - count_category result Unknown))
   \<and> (cls (boxes result) = [] \<longrightarrow> count_spots result = Inr (0, 0))
   \<and> (snd (detect_route w s req) = Response b 200 \<longrightarrow>
        (\<exists>open_cnt occ_cnt.
           0 \<le> open_cnt \<and> 0 \<le> occ_cnt
           \<and> b = Json [(''ok'', JBool True), (''free'', JInt open_cnt),
                        (''occupied'', JInt occ_cnt), (''total'', JInt (open_cnt + occ_cnt)),
                        (''openCount'', JInt open_cnt), (''occupiedCount'', JInt occ_cnt)]))"
proof (intro conjI impI)
  assume wf: "\<forall>c\<in>set (cls (boxes result)). py_int c \<in> dom (names result)"
  have nn: "0 \<le> count_category result Free" "0 \<le> count_category result Occupied"
    by (simp_all add: count_category_def)
  have total: "count_category result Free + count_category result Occupied
                 = int (length (cls (boxes result))) - count_category result Unknown"
    using count_category_sum [of result] by simp
  show "\<exists>open_cnt occ_cnt.
          count_spots result = Inr (open_cnt, occ_cnt) \<and> 0 \<le> open_cnt \<and> 0 \<le> occ_cnt
          \<and> open_cnt = count_category result Free
          \<and> occ_cnt = count_category result Occupied
          \<and> open_cnt + occ_cnt
              = int (length (cls (boxes result))) - count_category result Unknown"
    using count_spots_classify [OF wf] nn total by blast
next
  assume "cls (boxes result) = []"
  then show "count_spots result = Inr (0, 0)"
    by (simp add: count_spots_def)
next
  assume "snd (detect_route w s req) = Response b 200"
  from detect_route_ok_body [OF this] count_spots_nonneg
  show "\<exists>open_cnt occ_cnt.
          0 \<le> open_cnt \<and> 0 \<le> occ_cnt
          \<and> b = Json [(''ok'', JBool True), (''free'', JInt open_cnt),
                       (''occupied'', JInt occ_cnt), (''total'', JInt (open_cnt + occ_cnt)),
                       (''openCount'', JInt open_cnt), (''occupiedCount'', JInt occ_cnt)]"
    by blast
qed

theorem count_spots_total_witness:
  "list_all (\<lambda>c. py_int c \<in> dom (names two_spots)) (cls (boxes two_spots))
   \<and> count_spots two_spots = Inr (1, 1)
   \<and> count_category two_spots Unknown = 1
   \<and> count_spots \<lparr>names = Map.empty, boxes = \<lparr>xyxy = [], cls = [], conf = []\<rparr>\<rparr> = Inr (0, 0)
   \<and> snd (detect_route test_world fresh_server jpeg_upload) =
        Response (Json [(''ok'', JBool True), (''free'', JInt 1), (''occupied'', JInt 1),
                        (''total'', JInt 2), (''openCount'', JInt 1),
                        (''occupiedCount'', JInt 1)]) 200"
proof -
  note inst = count_spots_total [of two_spots test_world fresh_server jpeg_upload
      "Json [(''ok'', JBool True), (''free'', JInt 1), (''occupied'', JInt 1),
             (''total'', JInt 2), (''openCount'', JInt 1), (''occupiedCount'', JInt 1)]"]
  from inst two_spots_labelled
  have "\<exists>open_cnt occ_cnt. count_spots two_spots = Inr (open_cnt, occ_cnt)
          \<and> open_cnt = count_category two_spots Free
          \<and> occ_cnt = count_category two_spots Occupied"
    by blast
  then have counted: "count_spots two_spots = Inr (1, 1)"
    by (auto simp: two_spots_free two_spots_occupied)
  have empty: "count_spots \<lparr>names = Map.empty, boxes = \<lparr>xyxy = [], cls = [], conf = []\<rparr>\<rparr> = Inr (0, 0)"
    by (simp add: count_spots_def)
  have labelled: "list_all (\<lambda>c. py_int c \<in> dom (names two_spots)) (cls (boxes two_spots))"
    using two_spots_labelled by (simp add: list_all_iff)
  from labelled counted two_spots_unknown empty detect_two_spots show ?thesis by simp
qed

section \<open>Classification\<close>



lemma lower_char_idem: "lower_char (lower_char c) = lower_char c"
proof -
  have small: "(of_char c :: nat) < 256" by simp
  show ?thesis
    using small by (auto simp: lower_char_def Let_def)
qed

lemma lower_idem: "lower (lower s) = lower s"
  by (simp add: lower_def lower_char_idem)

lemma labels_disjoint: "FREE_LABELS \<inter> OCC_LABELS = {}"
  by (simp add: FREE_LABELS_def OCC_LABELS_def)

text \<open>
  Claim C2. The label of a detection is compared without regard to case and never raises:
  \<open>count_spots\<close> counts a single named detection as free when its lowered label is
  one of free, open, vacant, empty, available, as occupied when it is one of occupied,
  taken, parked, blocked, and not at all otherwise, which is the specification's
  classifier. Labels that differ only in case are classified alike, and the two sets
  share no label.
\<close>

theorem classify_labels:
  "(names result (py_int c) = Some label \<and> cls (boxes result) = [c] \<longrightarrow>
      count_spots result =
        Inr (case classify label of Free \<Rightarrow> (1, 0) | Occupied \<Rightarrow> (0, 1) | Unknown \<Rightarrow> (0, 0)))
   \<and> classify label =
        (if lower label \<in> {''free'', ''open'', ''vacant'', ''empty'', ''available''} then Free
         else if lower label \<in> {''occupied'', ''taken'', ''parked'', ''blocked''} then Occupied
         else Unknown)
   \<and> classify (lower label) = classify label
   \<and> (lower label = lower label' \<longrightarrow> classify label = classify label')
   \<and> FREE_LABELS \<inter> OCC_LABELS = {}"
proof (intro conjI impI)
  assume "names result (py_int c) = Some label \<and> cls (boxes result) = [c]"
  then show "count_spots result =
        Inr (case classify label of Free \<Rightarrow> (1, 0) | Occupied \<Rightarrow> (0, 1) | Unknown \<Rightarrow> (0, 0))"
    by (simp add: count_spots_def py_int_of_int classify_def Let_def)
next
  show "classify label =
        (if lower label \<in> {''free'', ''open'', ''vacant'', ''empty'', ''available''} then Free
         else if lower label \<in> {''occupied'', ''taken'', ''parked'', ''blocked''} then Occupied
         else Unknown)"
    unfolding classify_def FREE_LABELS_def OCC_LABELS_def by (rule refl)
next
  show "classify (lower label) = classify label"
    by (simp add: classify_def lower_idem)
next
  assume "lower label = lower label'"
  then show "classify label = classify label'"
    by (simp add: classify_def)
next
  show "FREE_LABELS \<inter> OCC_LABELS = {}" by (rule labels_disjoint)
qed

theorem classify_labels_witness:
  "names \<lparr>names = [3 \<mapsto> ''PaRkEd''], boxes = \<lparr>xyxy = [(0, 0, 5, 5)], cls = [3], conf = [1 / 2]\<rparr>\<rparr>
      (py_int 3) = Some ''PaRkEd''
   \<and> cls (boxes \<lparr>names = [3 \<mapsto> ''PaRkEd''], boxes = \<lparr>xyxy = [(0, 0, 5, 5)], cls = [3], conf = [1 / 2]\<rparr>\<rparr>) = [3]
   \<and> count_spots \<lparr>names = [3 \<mapsto> ''PaRkEd''], boxes = \<lparr>xyxy = [(0, 0, 5, 5)], cls = [3], conf = [1 / 2]\<rparr>\<rparr>
        = Inr (0, 1)
   \<and> lower ''PaRkEd'' = lower ''parked''
   \<and> classify ''PaRkEd'' = Occupied
   \<and> classify ''VACANT'' = Free
   \<and> classify ''cone'' = Unknown"
proof -
  have look: "names \<lparr>names = [3 \<mapsto> ''PaRkEd''], boxes = \<lparr>xyxy = [(0, 0, 5, 5)], cls = [3], conf = [1 / 2]\<rparr>\<rparr>
      (py_int 3) = Some ''PaRkEd''"
    by (simp add: py_int_def)
  have low: "lower ''PaRkEd'' = lower ''parked''" by code_simp
  have occ: "classify ''parked'' = Occupied" by code_simp
  have free: "classify ''VACANT'' = Free" by code_simp
  have unk: "classify ''cone'' = Unknown" by code_simp
  note inst = classify_labels [of
      "\<lparr>names = [3 \<mapsto> ''PaRkEd''], boxes = \<lparr>xyxy = [(0, 0, 5, 5)], cls = [3], conf = [1 / 2]\<rparr>\<rparr>"
      3 "''PaRkEd''" "''parked''"]
  note same = inst [THEN conjunct2, THEN conjunct2, THEN conjunct2, THEN conjunct1, THEN mp, OF low]
  from same occ have cl: "classify ''PaRkEd'' = Occupied" by (rule trans)
  have one: "cls (boxes \<lparr>names = [3 \<mapsto> ''PaRkEd''], boxes = \<lparr>xyxy = [(0, 0, 5, 5)], cls = [3], conf = [1 / 2]\<rparr>\<rparr>) = [3]"
    by simp
  note counted = inst [THEN conjunct1, THEN mp, OF conjI, OF look one]
  have counted':
    "count_spots \<lparr>names = [3 \<mapsto> ''PaRkEd''], boxes = \<lparr>xyxy = [(0, 0, 5, 5)], cls = [3], conf = [1 / 2]\<rparr>\<rparr>
        = Inr (0, 1)"
    using counted by (simp only: cl category.case)
  from look one counted' low cl free unk show ?thesis by (intro conjI)
qed

text \<open>
  Claim C10. The counts depend on the names and on the class indices only: two results
  that agree on both get the same answer from \<open>count_spots\<close>, whatever their boxes
  and confidences are.
\<close>

theorem count_spots_reads_labels_only:
  "names r1 = names r2 \<and> cls (boxes r1) = cls (boxes r2) \<longrightarrow> count_spots r1 = count_spots r2"
  by (simp add: count_spots_def)

theorem count_spots_reads_labels_only_witness:
  "names two_spots = names moved_spots
   \<and> cls (boxes two_spots) = cls (boxes moved_spots)
   \<and> xyxy (boxes two_spots) \<noteq> xyxy (boxes moved_spots)
   \<and> conf (boxes two_spots) \<noteq> conf (boxes moved_spots)
   \<and> count_spots two_spots = count_spots moved_spots"
proof -
  have n: "names two_spots = names moved_spots" by (simp add: two_spots_def moved_spots_def)
  have c: "cls (boxes two_spots) = cls (boxes moved_spots)" by (simp add: two_spots_def moved_spots_def)
  have x: "xyxy (boxes two_spots) \<noteq> xyxy (boxes moved_spots)" by (simp add: two_spots_def moved_spots_def)
  have f: "conf (boxes two_spots) \<noteq> conf (boxes moved_spots)" by (simp add: two_spots_def moved_spots_def)
  from count_spots_reads_labels_only [of two_spots moved_spots] n c
  have "count_spots two_spots = count_spots moved_spots" by simp
  with n c x f show ?thesis by simp
qed

section \<open>Requests that are refused\<close>

lemma detect_route_missing:
  assumes "files req ''image'' = None"
  shows \<open>detect_route w s req =
           (s, Response (Json [(''error'', JStr ''missing file field "image"'')]) 400)\<close>
  by (simp add: detect_route_def assms)

lemma detect_route_empty:
  assumes "files req ''image'' = Some []"
  shows "detect_route w s req = (s, Response (Json [(''error'', JStr ''empty upload'')]) 400)"
  by (simp add: detect_route_def assms)

lemma detect_route_undecodable:
  assumes "files req ''image'' = Some data" "data \<noteq> []" "imdecode (cv2 w) data = None"
  shows "detect_route w s req =
           (s, Response (Json [(''error'', JStr ''decode failed (bad image bytes)'')]) 400)"
  using assms by (simp add: detect_route_def)

text \<open>
  Claim C3. A \<^verbatim>\<open>POST /detect\<close> without a file field named image is answered 400 with
  the message that the field is missing; one whose file has no bytes is answered 400
  "empty upload", whatever a decoder would make of it; one whose bytes do not decode is
  answered 400 "decode failed (bad image bytes)". The checks come in this order and each
  ends the request.
\<close>

theorem detect_route_client_errors:
  \<open>(files req ''image'' = None \<longrightarrow>
      snd (detect_route w s req) =
        Response (Json [(''error'', JStr ''missing file field "image"'')]) 400)
   \<and> (files req ''image'' = Some [] \<longrightarrow>
      snd (detect_route w s req) = Response (Json [(''error'', JStr ''empty upload'')]) 400)
   \<and> (files req ''image'' = Some data \<and> data \<noteq> [] \<and> imdecode (cv2 w) data = None \<longrightarrow>
      snd (detect_route w s req) =
        Response (Json [(''error'', JStr ''decode failed (bad image bytes)'')]) 400)\<close>
  by (simp add: detect_route_missing detect_route_empty detect_route_undecodable)

lemma no_upload_files: "files no_upload ''image'' = None"
  by (simp add: no_upload_def)

lemma empty_upload_files: "files empty_upload ''image'' = Some []"
  by (simp add: empty_upload_def)

lemma text_upload_files:
  "files text_upload ''image'' = Some [0x68, 0x69] \<and> [0x68, 0x69 :: byte] \<noteq> []
   \<and> imdecode (cv2 test_world) [0x68, 0x69] = None"
  by (simp add: text_upload_def test_world_def cv_calls_def)

theorem detect_route_client_errors_witness:
  \<open>files no_upload ''image'' = None
   \<and> snd (detect_route test_world used_server no_upload) =
        Response (Json [(''error'', JStr ''missing file field "image"'')]) 400
   \<and> files empty_upload ''image'' = Some []
   \<and> snd (detect_route test_world used_server empty_upload) =
        Response (Json [(''error'', JStr ''empty upload'')]) 400
   \<and> files text_upload ''image'' = Some [0x68, 0x69]
   \<and> imdecode (cv2 test_world) [0x68, 0x69] = None
   \<and> snd (detect_route test_world used_server text_upload) =
        Response (Json [(''error'', JStr ''decode failed (bad image bytes)'')]) 400\<close>
proof -
  note a = detect_route_client_errors [of no_upload test_world used_server, THEN conjunct1, THEN mp,
      OF no_upload_files]
  note b = detect_route_client_errors [of empty_upload test_world used_server, THEN conjunct2,
      THEN conjunct1, THEN mp, OF empty_upload_files]
  note c = detect_route_client_errors [of text_upload test_world used_server "[0x68, 0x69]",
      THEN conjunct2, THEN conjunct2, THEN mp, OF text_upload_files]
  note t1 = text_upload_files [THEN conjunct1]
  note t3 = text_upload_files [THEN conjunct2, THEN conjunct2]
  from no_upload_files a empty_upload_files b t1 t3 c show ?thesis
    by (intro conjI)
qed

text \<open>
  Claim C4. A \<^verbatim>\<open>/detect\<close> request that is refused for a missing field, an empty
  upload or undecodable bytes, and more generally any that is answered 400, leaves the
  state as it was: the file of the last annotated image is not written and the detector
  is not called.
\<close>

theorem detect_route_error_atomic:
  "(files req ''image'' = None \<or> files req ''image'' = Some []
      \<or> (\<exists>data. files req ''image'' = Some data \<and> imdecode (cv2 w) data = None)
      \<or> (\<exists>b. snd (detect_route w s req) = Response b 400)
    \<longrightarrow> fst (detect_route w s req) = s
        \<and> last_annotated (fst (detect_route w s req)) = last_annotated s
        \<and> model_calls (fst (detect_route w s req)) = model_calls s)"
  by (auto simp: detect_route_def Let_def ndarray_copy_def
           split: option.splits list.splits sum.splits prod.splits)

theorem detect_route_error_atomic_witness:
  "files no_upload ''image'' = None
   \<and> fst (detect_route test_world used_server no_upload) = used_server
   \<and> files empty_upload ''image'' = Some []
   \<and> fst (detect_route test_world used_server empty_upload) = used_server
   \<and> files text_upload ''image'' = Some [0x68, 0x69]
   \<and> imdecode (cv2 test_world) [0x68, 0x69] = None
   \<and> fst (detect_route test_world used_server text_upload) = used_server
   \<and> last_annotated (fst (detect_route test_world used_server text_upload))
        = Some [0xFF, 0xD8, 0x07, 0xFF, 0xD9]"
proof -
  have a: "fst (detect_route test_world used_server no_upload) = used_server"
    using detect_route_error_atomic [of no_upload test_world used_server] no_upload_files
    by blast
  have b: "fst (detect_route test_world used_server empty_upload) = used_server"
    using detect_route_error_atomic [of empty_upload test_world used_server] empty_upload_files
    by blast
  have c: "fst (detect_route test_world used_server text_upload) = used_server"
    using detect_route_error_atomic [of text_upload test_world used_server] text_upload_files
    by blast
  have d: "last_annotated (fst (detect_route test_world used_server text_upload))
        = Some [0xFF, 0xD8, 0x07, 0xFF, 0xD9]"
    unfolding c by (simp add: used_server_def)
  note t1 = text_upload_files [THEN conjunct1]
  note t3 = text_upload_files [THEN conjunct2, THEN conjunct2]
  from no_upload_files a empty_upload_files b t1 t3 c d show ?thesis
    by (intro conjI)
qed

section \<open>The last annotated image\<close>

lemma draw_detections_address:
  "draw_detections cv \<sigma> img result = Inr (\<sigma>', out) \<Longrightarrow> out = img"
  by (auto simp: draw_detections_def Let_def split: sum.splits)

lemma detect_route_not_ok_file:
  assumes "\<not> is_ok (snd (detect_route w s req))"
  shows "last_annotated (fst (detect_route w s req)) = last_annotated s"
  using assms
  by (auto simp: detect_route_def Let_def ndarray_copy_def
           split: option.splits list.splits sum.splits prod.splits if_splits)

lemma detect_route_ok_file:
  assumes "is_ok (snd (detect_route w s req))"
  shows "\<exists>data im result rest \<sigma>'.
           files req ''image'' = Some data \<and> imdecode (cv2 w) data = Some im
           \<and> api_model w im (35 / 100) (50 / 100) = result # rest
           \<and> draw_detections (cv2 w) [im, im] 1 result = Inr (\<sigma>', 1)
           \<and> last_annotated (fst (detect_route w s req)) = Some (imwrite_jpg (cv2 w) (\<sigma>' ! 1))"
  using assms
  by (auto simp: detect_route_def Let_def ndarray_copy_def
           split: option.splits list.splits sum.splits prod.splits if_splits
           dest: draw_detections_address)

lemma handle_keeps_file:
  assumes "last_annotated s \<noteq> None"
  shows "last_annotated (fst (handle w s c)) \<noteq> None"
proof (cases c)
  case (Detect req)
  show ?thesis
  proof (cases "is_ok (snd (detect_route w s req))")
    case True
    from detect_route_ok_file [OF this] show ?thesis by (auto simp: Detect)
  next
    case False
    from detect_route_not_ok_file [OF this] assms show ?thesis by (simp add: Detect)
  qed
next
  case GetImage
  with assms show ?thesis by (auto simp: get_image_def split: option.splits)
next
  case Status
  with assms show ?thesis by (simp add: status_def)
qed

lemma serve_keeps_file:
  "last_annotated s \<noteq> None \<Longrightarrow> last_annotated (serve w s cs) \<noteq> None"
proof (induction cs arbitrary: s)
  case Nil
  then show ?case by simp
next
  case (Cons c cs)
  from handle_keeps_file [OF Cons.prems] have "last_annotated (fst (handle w s c)) \<noteq> None" .
  from Cons.IH [OF this] show ?case by simp
qed

lemma serve_without_success:
  "\<not> detect_succeeded w s cs \<Longrightarrow> last_annotated (serve w s cs) = last_annotated s"
proof (induction cs arbitrary: s)
  case Nil
  then show ?case by simp
next
  case (Cons c cs)
  show ?case
  proof (cases c)
    case (Detect req)
    with Cons.prems have no: "\<not> is_ok (snd (detect_route w s req))"
      and rest: "\<not> detect_succeeded w (fst (detect_route w s req)) cs"
      by simp_all
    from Cons.IH [OF rest] detect_route_not_ok_file [OF no] show ?thesis
      by (simp add: Detect)
  next
    case GetImage
    with Cons.prems have "\<not> detect_succeeded w (fst (get_image s)) cs" by simp
    from Cons.IH [OF this] show ?thesis
      by (simp add: GetImage) (simp add: get_image_def split: option.splits)
  next
    case Status
    with Cons.prems have "\<not> detect_succeeded w (fst (status w s)) cs" by simp
    from Cons.IH [OF this] show ?thesis
      by (simp add: Status) (simp add: status_def)
  qed
qed

lemma serve_with_success:
  "detect_succeeded w s cs \<Longrightarrow> last_annotated (serve w s cs) \<noteq> None"
proof (induction cs arbitrary: s)
  case Nil
  then show ?case by simp
next
  case (Cons c cs)
  show ?case
  proof (cases c)
    case (Detect req)
    show ?thesis
    proof (cases "is_ok (snd (detect_route w s req))")
      case True
      from detect_route_ok_file [OF this]
      have "last_annotated (fst (detect_route w s req)) \<noteq> None" by auto
      from serve_keeps_file [OF this] show ?thesis by (simp add: Detect)
    next
      case False
      with Cons.prems Detect have "detect_succeeded w (fst (detect_route w s req)) cs" by simp
      from Cons.IH [OF this] show ?thesis by (simp add: Detect)
    qed
  next
    case GetImage
    with Cons.prems have "detect_succeeded w (fst (get_image s)) cs" by simp
    from Cons.IH [OF this] show ?thesis by (simp add: GetImage)
  next
    case Status
    with Cons.prems have "detect_succeeded w (fst (status w s)) cs" by simp
    from Cons.IH [OF this] show ?thesis by (simp add: Status)
  qed
qed

lemma get_image_response:
  "snd (get_image s) =
     (case last_annotated s of
        None \<Rightarrow> Response (Json [(''error'', JStr ''No image available'')]) 404
      | Some bytes \<Rightarrow> Response (File bytes ''image/jpeg'') 200)"
  by (simp add: get_image_def split: option.splits)

text \<open>
  Claim C5, as the code has it. \<^verbatim>\<open>GET /get_image\<close> answers 404 "No image available"
  exactly when the file of the last annotated image does not exist, and 200 with the
  bytes of that file otherwise. When the file is absent at the start, the answer after
  any sequence of requests is 404 exactly when no \<^verbatim>\<open>/detect\<close> among them has
  succeeded. After a \<^verbatim>\<open>/detect\<close> that succeeds, and until the next one that does,
  the answer is 200 with the encoding of the image that this request annotated.
\<close>

theorem get_image_serves_file:
  "snd (get_image s) =
     (case last_annotated s of
        None \<Rightarrow> Response (Json [(''error'', JStr ''No image available'')]) 404
      | Some bytes \<Rightarrow> Response (File bytes ''image/jpeg'') 200)
   \<and> (last_annotated s = None \<longrightarrow>
        (snd (get_image (serve w s cs)) = Response (Json [(''error'', JStr ''No image available'')]) 404)
          = (\<not> detect_succeeded w s cs))
   \<and> (is_ok (snd (detect_route w s req)) \<and> \<not> detect_succeeded w (fst (detect_route w s req)) cs \<longrightarrow>
        (\<exists>data im result rest \<sigma>'.
           files req ''image'' = Some data \<and> imdecode (cv2 w) data = Some im
           \<and> api_model w im (35 / 100) (50 / 100) = result # rest
           \<and> draw_detections (cv2 w) [im, im] 1 result = Inr (\<sigma>', 1)
           \<and> snd (get_image (serve w (fst (detect_route w s req)) cs)) =
               Response (File (imwrite_jpg (cv2 w) (\<sigma>' ! 1)) ''image/jpeg'') 200))"
proof (intro conjI impI)
  show "snd (get_image s) =
     (case last_annotated s of
        None \<Rightarrow> Response (Json [(''error'', JStr ''No image available'')]) 404
      | Some bytes \<Rightarrow> Response (File bytes ''image/jpeg'') 200)"
    by (rule get_image_response)
next
  assume absent: "last_annotated s = None"
  show "(snd (get_image (serve w s cs)) = Response (Json [(''error'', JStr ''No image available'')]) 404)
          = (\<not> detect_succeeded w s cs)"
  proof (cases "detect_succeeded w s cs")
    case True
    from serve_with_success [OF this] obtain bytes where "last_annotated (serve w s cs) = Some bytes"
      by auto
    with True show ?thesis by (simp add: get_image_response)
  next
    case False
    from serve_without_success [OF this] absent have "last_annotated (serve w s cs) = None" by simp
    with False show ?thesis by (simp add: get_image_response)
  qed
next
  assume "is_ok (snd (detect_route w s req)) \<and> \<not> detect_succeeded w (fst (detect_route w s req)) cs"
  then have ok: "is_ok (snd (detect_route w s req))"
    and quiet: "\<not> detect_succeeded w (fst (detect_route w s req)) cs"
    by simp_all
  from detect_route_ok_file [OF ok]
  obtain data im result rest \<sigma>' where
    facts: "files req ''image'' = Some data" "imdecode (cv2 w) data = Some im"
      "api_model w im (35 / 100) (50 / 100) = result # rest"
      "draw_detections (cv2 w) [im, im] 1 result = Inr (\<sigma>', 1)"
    and stored: "last_annotated (fst (detect_route w s req)) = Some (imwrite_jpg (cv2 w) (\<sigma>' ! 1))"
    by blast
  from serve_without_success [OF quiet] stored
  have "snd (get_image (serve w (fst (detect_route w s req)) cs)) =
               Response (File (imwrite_jpg (cv2 w) (\<sigma>' ! 1)) ''image/jpeg'') 200"
    by (simp add: get_image_response)
  with facts show "\<exists>data im result rest \<sigma>'.
           files req ''image'' = Some data \<and> imdecode (cv2 w) data = Some im
           \<and> api_model w im (35 / 100) (50 / 100) = result # rest
           \<and> draw_detections (cv2 w) [im, im] 1 result = Inr (\<sigma>', 1)
           \<and> snd (get_image (serve w (fst (detect_route w s req)) cs)) =
               Response (File (imwrite_jpg (cv2 w) (\<sigma>' ! 1)) ''image/jpeg'') 200"
    by blast
qed


text \<open>
  The file outlives the process that wrote it. A server that starts where an earlier one
  has left its file answers 200 before it has handled any request.
\<close>

theorem get_image_before_any_detect:
  "\<not> detect_succeeded test_world restarted_server []
   \<and> snd (get_image (serve test_world restarted_server [])) =
        Response (File [0xFF, 0xD8, 0x07, 0xFF, 0xD9] ''image/jpeg'') 200
   \<and> snd (get_image (serve test_world restarted_server [])) \<noteq>
        Response (Json [(''error'', JStr ''No image available'')]) 404"
  by (simp add: get_image_def restarted_server_def)

lemma fresh_server_absent: "last_annotated fresh_server = None"
  by (simp add: fresh_server_def)

lemma text_upload_refused:
  "detect_route test_world s text_upload =
     (s, Response (Json [(''error'', JStr ''decode failed (bad image bytes)'')]) 400)"
  by (rule detect_route_undecodable [of _ "[0x68, 0x69]"])
     (simp_all add: text_upload_def test_world_def cv_calls_def)

lemma quiet_calls: "\<not> detect_succeeded test_world fresh_server [GetImage, Detect text_upload, Status]"
  by (simp add: text_upload_refused get_image_def status_def)

lemma busy_calls: "detect_succeeded test_world fresh_server [Detect jpeg_upload, Detect text_upload, GetImage]"
  by (simp add: detect_two_spots)

theorem get_image_serves_file_witness:
  "last_annotated fresh_server = None
   \<and> \<not> detect_succeeded test_world fresh_server [GetImage, Detect text_upload, Status]
   \<and> snd (get_image (serve test_world fresh_server [GetImage, Detect text_upload, Status])) =
        Response (Json [(''error'', JStr ''No image available'')]) 404
   \<and> detect_succeeded test_world fresh_server [Detect jpeg_upload, Detect text_upload, GetImage]
   \<and> snd (get_image (serve test_world fresh_server [Detect jpeg_upload, Detect text_upload, GetImage])) \<noteq>
        Response (Json [(''error'', JStr ''No image available'')]) 404"
proof -
  note quiet = get_image_serves_file [of fresh_server test_world "[GetImage, Detect text_upload, Status]",
      THEN conjunct2, THEN conjunct1, THEN mp, OF fresh_server_absent]
  note busy = get_image_serves_file [of fresh_server test_world
      "[Detect jpeg_upload, Detect text_upload, GetImage]",
      THEN conjunct2, THEN conjunct1, THEN mp, OF fresh_server_absent]
  from quiet quiet_calls
  have a: "snd (get_image (serve test_world fresh_server [GetImage, Detect text_upload, Status])) =
        Response (Json [(''error'', JStr ''No image available'')]) 404"
    by (rule iffD2)
  from busy busy_calls
  have b: "snd (get_image (serve test_world fresh_server [Detect jpeg_upload, Detect text_upload, GetImage])) \<noteq>
        Response (Json [(''error'', JStr ''No image available'')]) 404"
    by blast
  from fresh_server_absent quiet_calls a busy_calls b show ?thesis
    by (intro conjI)
qed

section \<open>Drawing\<close>

lemma draw_box_free_store:
  assumes nm: "nms (py_int c) = Some nm" and free: "lower nm \<in> FREE_LABELS"
    and live: "img < length \<sigma>"
    and size: "getTextSize cv (''Free '' @ format_2f cf) FONT_HERSHEY_SIMPLEX (6 / 10) 2 = ((tw, th), bl)"
  shows "draw_box cv nms \<sigma> img ((bx1, by1, bx2, by2), c, cf) =
     Inr (\<sigma>[img :=
            rectangle cv
              (putText cv
                 (addWeighted cv
                    (rectangle cv (\<sigma> ! img) (py_int bx1, max 0 (py_int by1 - th - 6))
                       (py_int bx1 + tw + 8, py_int by1) (0, 200, 0) (- 1))
                    (35 / 100) (\<sigma> ! img) (65 / 100) 0)
                 (''Free '' @ format_2f cf) (py_int bx1 + 4, py_int by1 - 4)
                 FONT_HERSHEY_SIMPLEX (6 / 10) (255, 255, 255) 2)
              (py_int bx1, py_int by1) (py_int bx2, py_int by2) (0, 200, 0) 3]
          @ [rectangle cv (\<sigma> ! img) (py_int bx1, max 0 (py_int by1 - th - 6))
               (py_int bx1 + tw + 8, py_int by1) (0, 200, 0) (- 1)])"
  using live size
  by (simp add: draw_box_def nm free ndarray_copy_def Let_def nth_append list_update_append)

lemma draw_box_other_store:
  assumes nm: "nms (py_int c) = Some nm" and other: "lower nm \<notin> FREE_LABELS"
  shows "draw_box cv nms \<sigma> img ((bx1, by1, bx2, by2), c, cf) =
     Inr (\<sigma>[img := rectangle cv (\<sigma> ! img) (py_int bx1, py_int by1) (py_int bx2, py_int by2)
                       (50, 50, 200) 1])"
  by (simp add: draw_box_def nm other Let_def)

lemma draw_box_unnamed:
  assumes "nms (py_int c) = None"
  shows "draw_box cv nms \<sigma> img ((bx1, by1, bx2, by2), c, cf) = Inl KeyError"
  by (simp add: draw_box_def assms Let_def)

lemma classify_Free_iff: "classify nm = Free \<longleftrightarrow> lower nm \<in> FREE_LABELS"
  by (simp add: classify_def)

lemma draw_box_frame:
  assumes live: "img < length \<sigma>" and step: "draw_box cv nms \<sigma> img d = Inr \<sigma>'"
  shows "length \<sigma> \<le> length \<sigma>' \<and> (\<forall>b<length \<sigma>. b \<noteq> img \<longrightarrow> \<sigma>' ! b = \<sigma> ! b)"
proof -
  obtain bx1 by1 bx2 by2 c cf where d: "d = ((bx1, by1, bx2, by2), c, cf)"
    by (cases d) auto
  show ?thesis
  proof (cases "nms (py_int c)")
    case None
    have "draw_box cv nms \<sigma> img d = Inl KeyError"
      unfolding d using None by (rule draw_box_unnamed)
    with step show ?thesis by simp
  next
    case (Some nm)
    show ?thesis
    proof (cases "lower nm \<in> FREE_LABELS")
      case True
      obtain tw th bl where
        size: "getTextSize cv (''Free '' @ format_2f cf) FONT_HERSHEY_SIMPLEX (6 / 10) 2 = ((tw, th), bl)"
        by (metis prod.exhaust)
      from draw_box_free_store [where nms = nms and c = c, OF Some True live size] step
      show ?thesis by (auto simp: d nth_append)
    next
      case False
      note g = draw_box_other_store [where nms = nms and c = c, OF Some False]
      from step show ?thesis by (auto simp: d g)
    qed
  qed
qed

lemma draw_box_content:
  assumes l1: "a1 < length \<sigma>1" and l2: "a2 < length \<sigma>2" and same: "\<sigma>1 ! a1 = \<sigma>2 ! a2"
  shows "(\<exists>e. draw_box cv nms \<sigma>1 a1 d = Inl e \<and> draw_box cv nms \<sigma>2 a2 d = Inl e)
       \<or> (\<exists>\<sigma>1' \<sigma>2'. draw_box cv nms \<sigma>1 a1 d = Inr \<sigma>1' \<and> draw_box cv nms \<sigma>2 a2 d = Inr \<sigma>2'
             \<and> a1 < length \<sigma>1' \<and> a2 < length \<sigma>2' \<and> \<sigma>1' ! a1 = \<sigma>2' ! a2)"
proof -
  obtain bx1 by1 bx2 by2 c cf where d: "d = ((bx1, by1, bx2, by2), c, cf)"
    by (cases d) auto
  show ?thesis
  proof (cases "nms (py_int c)")
    case None
    show ?thesis by (simp add: d draw_box_unnamed [where nms = nms and c = c, OF None])
  next
    case (Some nm)
    show ?thesis
    proof (cases "lower nm \<in> FREE_LABELS")
      case True
      obtain tw th bl where
        size: "getTextSize cv (''Free '' @ format_2f cf) FONT_HERSHEY_SIMPLEX (6 / 10) 2 = ((tw, th), bl)"
        by (metis prod.exhaust)
      note f1 = draw_box_free_store [where nms = nms and c = c and \<sigma> = \<sigma>1 and img = a1,
          OF Some True l1 size]
      note f2 = draw_box_free_store [where nms = nms and c = c and \<sigma> = \<sigma>2 and img = a2,
          OF Some True l2 size]
      show ?thesis
        using l1 l2 same by (simp add: d f1 f2 nth_append)
    next
      case False
      note g = draw_box_other_store [where nms = nms and c = c, OF Some False]
      show ?thesis
        using l1 l2 same by (simp add: d g)
    qed
  qed
qed

lemma draw_loop_frame:
  assumes "img < length \<sigma>" and "draw_loop cv nms \<sigma> img ds = Inr \<sigma>'"
  shows "length \<sigma> \<le> length \<sigma>' \<and> (\<forall>b<length \<sigma>. b \<noteq> img \<longrightarrow> \<sigma>' ! b = \<sigma> ! b)"
  using assms
proof (induction ds arbitrary: \<sigma>)
  case Nil
  then show ?case by simp
next
  case (Cons d ds)
  from Cons.prems(2) obtain \<sigma>1 where
    step: "draw_box cv nms \<sigma> img d = Inr \<sigma>1" and rest: "draw_loop cv nms \<sigma>1 img ds = Inr \<sigma>'"
    by (auto split: sum.splits)
  from draw_box_frame [OF Cons.prems(1) step]
  have one: "length \<sigma> \<le> length \<sigma>1" "\<forall>b<length \<sigma>. b \<noteq> img \<longrightarrow> \<sigma>1 ! b = \<sigma> ! b"
    by simp_all
  from one(1) Cons.prems(1) have "img < length \<sigma>1" by simp
  from Cons.IH [OF this rest]
  have more: "length \<sigma>1 \<le> length \<sigma>'" "\<forall>b<length \<sigma>1. b \<noteq> img \<longrightarrow> \<sigma>' ! b = \<sigma>1 ! b"
    by simp_all
  from one more show ?case by auto
qed

lemma draw_loop_content:
  assumes "a1 < length \<sigma>1" and "a2 < length \<sigma>2" and "\<sigma>1 ! a1 = \<sigma>2 ! a2"
  shows "(\<exists>e. draw_loop cv nms \<sigma>1 a1 ds = Inl e \<and> draw_loop cv nms \<sigma>2 a2 ds = Inl e)
       \<or> (\<exists>\<sigma>1' \<sigma>2'. draw_loop cv nms \<sigma>1 a1 ds = Inr \<sigma>1' \<and> draw_loop cv nms \<sigma>2 a2 ds = Inr \<sigma>2'
             \<and> \<sigma>1' ! a1 = \<sigma>2' ! a2)"
  using assms
proof (induction ds arbitrary: \<sigma>1 \<sigma>2)
  case Nil
  then show ?case by simp
next
  case (Cons d ds)
  from draw_box_content [OF Cons.prems, of cv nms d]
  consider (raised) e where "draw_box cv nms \<sigma>1 a1 d = Inl e" "draw_box cv nms \<sigma>2 a2 d = Inl e"
    | (drawn) \<sigma>1' \<sigma>2' where "draw_box cv nms \<sigma>1 a1 d = Inr \<sigma>1'" "draw_box cv nms \<sigma>2 a2 d = Inr \<sigma>2'"
        "a1 < length \<sigma>1'" "a2 < length \<sigma>2'" "\<sigma>1' ! a1 = \<sigma>2' ! a2"
    by blast
  then show ?case
  proof cases
    case raised
    then show ?thesis by simp
  next
    case drawn
    from Cons.IH [OF drawn(3) drawn(4) drawn(5)] drawn(1) drawn(2) show ?thesis by simp
  qed
qed

lemma draw_loop_append:
  "draw_loop cv nms \<sigma> img (xs @ ys) =
     (case draw_loop cv nms \<sigma> img xs of
        Inl e \<Rightarrow> Inl e
      | Inr \<sigma>1 \<Rightarrow> draw_loop cv nms \<sigma>1 img ys)"
  by (induction xs arbitrary: \<sigma>) (simp_all split: sum.splits)

lemma draw_detections_Nil:
  "draw_detections cv \<sigma> img \<lparr>names = nms, boxes = \<lparr>xyxy = [], cls = [], conf = []\<rparr>\<rparr> = Inr (\<sigma>, img)"
  by (simp add: draw_detections_def)

lemma draw_detections_Cons:
  "draw_detections cv \<sigma> img \<lparr>names = nms, boxes = \<lparr>xyxy = b # bs, cls = c # cs, conf = cf # cfs\<rparr>\<rparr> =
     (case draw_box cv nms \<sigma> img (b, c, cf) of
        Inl e \<Rightarrow> Inl e
      | Inr \<sigma>1 \<Rightarrow> draw_detections cv \<sigma>1 img \<lparr>names = nms, boxes = \<lparr>xyxy = bs, cls = cs, conf = cfs\<rparr>\<rparr>)"
  by (simp add: draw_detections_def split: sum.splits)

lemma draw_detections_at:
  assumes lens: "length bs = length cs" "length cs = length cfs"
  shows "draw_detections cv \<sigma> img
           \<lparr>names = nms, boxes = \<lparr>xyxy = bs @ b # bs', cls = cs @ c # cs', conf = cfs @ cf # cfs'\<rparr>\<rparr> =
     (case draw_detections cv \<sigma> img \<lparr>names = nms, boxes = \<lparr>xyxy = bs, cls = cs, conf = cfs\<rparr>\<rparr> of
        Inl e \<Rightarrow> Inl e
      | Inr (\<sigma>1, a) \<Rightarrow>
          (case draw_box cv nms \<sigma>1 img (b, c, cf) of
             Inl e \<Rightarrow> Inl e
           | Inr \<sigma>2 \<Rightarrow>
               draw_detections cv \<sigma>2 img \<lparr>names = nms, boxes = \<lparr>xyxy = bs', cls = cs', conf = cfs'\<rparr>\<rparr>))"
  using lens
  by (simp add: draw_detections_def draw_loop_append split: sum.splits)

lemma draw_detections_live:
  assumes "img < length \<sigma>" and "draw_detections cv \<sigma> img result = Inr (\<sigma>1, a)"
  shows "img < length \<sigma>1"
proof -
  from assms(2) have "draw_loop cv (names result) \<sigma> img
      (zip (xyxy (boxes result)) (zip (cls (boxes result)) (conf (boxes result)))) = Inr \<sigma>1"
    by (auto simp: draw_detections_def Let_def split: sum.splits)
  from draw_loop_frame [OF assms(1) this] assms(1) show ?thesis by simp
qed

lemma format_87: "format_2f (87 / 100) = ''0.87''"
  by code_simp

lemma py_int_values: "py_int 10 = 10" "py_int 40 = 40" "py_int 60 = 60" "py_int 90 = 90"
  "py_int (71 / 2) = 35" "py_int 5 = 5" "py_int 80 = 80" "py_int 30 = 30"
  "py_int 0 = 0" "py_int 1 = 1" "py_int 2 = 2" "py_int 3 = 3" "py_int 4 = 4"
  by code_simp+

lemma two_spots_names:
  "names two_spots (py_int 0) = Some ''Free''"
  "names two_spots (py_int 1) = Some ''occupied''"
  "names two_spots (py_int 2) = Some ''cone''"
  by (simp_all add: two_spots_def py_int_values)

lemma label_classes:
  "classify ''Free'' = Free" "classify ''occupied'' = Occupied" "classify ''cone'' = Unknown"
  by code_simp+

lemma text_size_87:
  "getTextSize cv_calls (''Free '' @ format_2f (87 / 100)) FONT_HERSHEY_SIMPLEX (6 / 10) 2
     = ((99, 13), 5)"
  by (simp add: format_87 cv_calls_def)

lemma cv_calls_fields:
  "rectangle cv_calls = Rect" "addWeighted cv_calls = Blend" "putText cv_calls = Text"
  by (simp_all add: cv_calls_def)

lemma other_labels: "lower ''occupied'' \<notin> FREE_LABELS" "lower ''cone'' \<notin> FREE_LABELS"
  by code_simp+

lemma free_label: "lower ''Free'' \<in> FREE_LABELS"
  by code_simp

lemma occupied_box_calls:
  "draw_box cv_calls (names two_spots) \<sigma> img ((xa, ya, xb, yb), 1, cf) =
     Inr (\<sigma>[img := Rect (\<sigma> ! img) (py_int xa, py_int ya) (py_int xb, py_int yb) (50, 50, 200) 1])"
  unfolding draw_box_other_store [where nms = "names two_spots" and c = 1 and cv = cv_calls,
      OF two_spots_names(2) other_labels(1)]
  by (simp add: cv_calls_fields)

lemma cone_box_calls:
  "draw_box cv_calls (names two_spots) \<sigma> img ((xa, ya, xb, yb), 2, cf) =
     Inr (\<sigma>[img := Rect (\<sigma> ! img) (py_int xa, py_int ya) (py_int xb, py_int yb) (50, 50, 200) 1])"
  unfolding draw_box_other_store [where nms = "names two_spots" and c = 2 and cv = cv_calls,
      OF two_spots_names(3) other_labels(2)]
  by (simp add: cv_calls_fields)

lemma free_box_calls:
  assumes "img < length \<sigma>"
  shows "draw_box cv_calls (names two_spots) \<sigma> img ((xa, ya, xb, yb), 0, 87 / 100) =
     Inr (\<sigma>[img :=
            Rect (Text (Blend (Rect (\<sigma> ! img) (py_int xa, max 0 (py_int ya - 13 - 6))
                                 (py_int xa + 99 + 8, py_int ya) (0, 200, 0) (- 1))
                          (35 / 100) (\<sigma> ! img) (65 / 100) 0)
                    ''Free 0.87'' (py_int xa + 4, py_int ya - 4) 0 (6 / 10) (255, 255, 255) 2)
                 (py_int xa, py_int ya) (py_int xb, py_int yb) (0, 200, 0) 3]
          @ [Rect (\<sigma> ! img) (py_int xa, max 0 (py_int ya - 13 - 6)) (py_int xa + 99 + 8, py_int ya)
               (0, 200, 0) (- 1)])"
  unfolding draw_box_free_store [where nms = "names two_spots" and c = 0 and cv = cv_calls,
      OF two_spots_names(1) free_label assms text_size_87]
  by (simp add: cv_calls_fields format_87 FONT_HERSHEY_SIMPLEX_def)

text \<open>
  Claim C6. For a detection classified Free, with the corners of its box converted to
  pixels \<open>(x1, y1)\<close> and \<open>(x2, y2)\<close> and with confidence \<open>cf\<close>, the renderer
  fills the rectangle from \<open>(x1, max 0 (y1 - th - 6))\<close> to \<open>(x1 + tw + 8, y1)\<close> in
  \<open>(0, 200, 0)\<close> on a scratch copy of the image, blends the copy over the image with the
  weights 0.35 and 0.65, writes "Free " and the confidence with two decimals in white at
  \<open>(x1 + 4, y1 - 4)\<close>, and draws the box in \<open>(0, 200, 0)\<close> with thickness 3. Here
  \<open>(tw, th)\<close> is the size of the text at scale 0.6 and thickness 2. This is what
  \<open>draw_detections\<close> returns for a result with this one detection, and for a detection
  at any place of a result it is what \<open>draw_detections\<close> does to the image as the
  detections before have left it, before it goes on with the detections after.
\<close>

theorem draw_detections_free:
  assumes named: "nms (py_int c) = Some nm" and free: "classify nm = Free"
    and live: "img < length \<sigma>"
    and size: "getTextSize cv (''Free '' @ format_2f cf) FONT_HERSHEY_SIMPLEX (6 / 10) 2 = ((tw, th), bl)"
    and lens: "length bs = length cs" "length cs = length cfs"
  shows
    "draw_detections cv \<sigma> img
       \<lparr>names = nms, boxes = \<lparr>xyxy = [(bx1, by1, bx2, by2)], cls = [c], conf = [cf]\<rparr>\<rparr> =
     Inr (\<sigma>[img :=
            rectangle cv
              (putText cv
                 (addWeighted cv
                    (rectangle cv (\<sigma> ! img) (py_int bx1, max 0 (py_int by1 - th - 6))
                       (py_int bx1 + tw + 8, py_int by1) (0, 200, 0) (- 1))
                    (35 / 100) (\<sigma> ! img) (65 / 100) 0)
                 (''Free '' @ format_2f cf) (py_int bx1 + 4, py_int by1 - 4)
                 FONT_HERSHEY_SIMPLEX (6 / 10) (255, 255, 255) 2)
              (py_int bx1, py_int by1) (py_int bx2, py_int by2) (0, 200, 0) 3]
          @ [rectangle cv (\<sigma> ! img) (py_int bx1, max 0 (py_int by1 - th - 6))
               (py_int bx1 + tw + 8, py_int by1) (0, 200, 0) (- 1)],
          img)
   \<and> draw_detections cv \<sigma> img
       \<lparr>names = nms,
          boxes = \<lparr>xyxy = bs @ (bx1, by1, bx2, by2) # bs', cls = cs @ c # cs', conf = cfs @ cf # cfs'\<rparr>\<rparr> =
     (case draw_detections cv \<sigma> img \<lparr>names = nms, boxes = \<lparr>xyxy = bs, cls = cs, conf = cfs\<rparr>\<rparr> of
        Inl e \<Rightarrow> Inl e
      | Inr (\<sigma>1, a) \<Rightarrow>
          draw_detections cv
            (\<sigma>1[img :=
                 rectangle cv
                   (putText cv
                      (addWeighted cv
                         (rectangle cv (\<sigma>1 ! img) (py_int bx1, max 0 (py_int by1 - th - 6))
                            (py_int bx1 + tw + 8, py_int by1) (0, 200, 0) (- 1))
                         (35 / 100) (\<sigma>1 ! img) (65 / 100) 0)
                      (''Free '' @ format_2f cf) (py_int bx1 + 4, py_int by1 - 4)
                      FONT_HERSHEY_SIMPLEX (6 / 10) (255, 255, 255) 2)
                   (py_int bx1, py_int by1) (py_int bx2, py_int by2) (0, 200, 0) 3]
             @ [rectangle cv (\<sigma>1 ! img) (py_int bx1, max 0 (py_int by1 - th - 6))
                  (py_int bx1 + tw + 8, py_int by1) (0, 200, 0) (- 1)])
            img \<lparr>names = nms, boxes = \<lparr>xyxy = bs', cls = cs', conf = cfs'\<rparr>\<rparr>)"
proof (rule conjI)
  from free have lab: "lower nm \<in> FREE_LABELS" by (simp add: classify_Free_iff)
  note box = draw_box_free_store [where nms = nms and c = c, OF named lab _ size]
  show "draw_detections cv \<sigma> img
       \<lparr>names = nms, boxes = \<lparr>xyxy = [(bx1, by1, bx2, by2)], cls = [c], conf = [cf]\<rparr>\<rparr> =
     Inr (\<sigma>[img :=
            rectangle cv
              (putText cv
                 (addWeighted cv
                    (rectangle cv (\<sigma> ! img) (py_int bx1, max 0 (py_int by1 - th - 6))
                       (py_int bx1 + tw + 8, py_int by1) (0, 200, 0) (- 1))
                    (35 / 100) (\<sigma> ! img) (65 / 100) 0)
                 (''Free '' @ format_2f cf) (py_int bx1 + 4, py_int by1 - 4)
                 FONT_HERSHEY_SIMPLEX (6 / 10) (255, 255, 255) 2)
              (py_int bx1, py_int by1) (py_int bx2, py_int by2) (0, 200, 0) 3]
          @ [rectangle cv (\<sigma> ! img) (py_int bx1, max 0 (py_int by1 - th - 6))
               (py_int bx1 + tw + 8, py_int by1) (0, 200, 0) (- 1)],
          img)"
    by (simp only: draw_detections_Cons box [OF live] sum.case draw_detections_Nil)
  show "draw_detections cv \<sigma> img
       \<lparr>names = nms,
          boxes = \<lparr>xyxy = bs @ (bx1, by1, bx2, by2) # bs', cls = cs @ c # cs', conf = cfs @ cf # cfs'\<rparr>\<rparr> =
     (case draw_detections cv \<sigma> img \<lparr>names = nms, boxes = \<lparr>xyxy = bs, cls = cs, conf = cfs\<rparr>\<rparr> of
        Inl e \<Rightarrow> Inl e
      | Inr (\<sigma>1, a) \<Rightarrow>
          draw_detections cv
            (\<sigma>1[img :=
                 rectangle cv
                   (putText cv
                      (addWeighted cv
                         (rectangle cv (\<sigma>1 ! img) (py_int bx1, max 0 (py_int by1 - th - 6))
                            (py_int bx1 + tw + 8, py_int by1) (0, 200, 0) (- 1))
                         (35 / 100) (\<sigma>1 ! img) (65 / 100) 0)
                      (''Free '' @ format_2f cf) (py_int bx1 + 4, py_int by1 - 4)
                      FONT_HERSHEY_SIMPLEX (6 / 10) (255, 255, 255) 2)
                   (py_int bx1, py_int by1) (py_int bx2, py_int by2) (0, 200, 0) 3]
             @ [rectangle cv (\<sigma>1 ! img) (py_int bx1, max 0 (py_int by1 - th - 6))
                  (py_int bx1 + tw + 8, py_int by1) (0, 200, 0) (- 1)])
            img \<lparr>names = nms, boxes = \<lparr>xyxy = bs', cls = cs', conf = cfs'\<rparr>\<rparr>)"
  proof (cases "draw_detections cv \<sigma> img \<lparr>names = nms, boxes = \<lparr>xyxy = bs, cls = cs, conf = cfs\<rparr>\<rparr>")
    case (Inl e)
    then show ?thesis by (simp only: draw_detections_at [OF lens] sum.case)
  next
    case (Inr r)
    obtain \<sigma>1 a where r: "r = (\<sigma>1, a)" by (cases r) auto
    from draw_detections_live [OF live Inr [unfolded r]] have "img < length \<sigma>1" .
    from box [OF this] show ?thesis
      by (simp only: draw_detections_at [OF lens] Inr r sum.case prod.case)
  qed
qed

theorem draw_detections_free_witness:
  "names two_spots (py_int 0) = Some ''Free'' \<and> classify ''Free'' = Free
   \<and> (0 :: nat) < length [Decoded [0xFF, 0xD8]]
   \<and> getTextSize cv_calls (''Free '' @ format_2f (87 / 100)) FONT_HERSHEY_SIMPLEX (6 / 10) 2
        = ((99, 13), 5)
   \<and> draw_detections cv_calls [Decoded [0xFF, 0xD8]] 0
        \<lparr>names = names two_spots,
           boxes = \<lparr>xyxy = [(10, 40, 60, 90)], cls = [0], conf = [87 / 100]\<rparr>\<rparr> =
       Inr ([Rect (Text (Blend (Rect (Decoded [0xFF, 0xD8]) (10, 21) (117, 40) (0, 200, 0) (- 1))
                            (35 / 100) (Decoded [0xFF, 0xD8]) (65 / 100) 0)
                      ''Free 0.87'' (14, 36) 0 (6 / 10) (255, 255, 255) 2)
                  (10, 40) (60, 90) (0, 200, 0) 3,
             Rect (Decoded [0xFF, 0xD8]) (10, 21) (117, 40) (0, 200, 0) (- 1)], 0)
   \<and> draw_detections cv_calls [Decoded [0xFF, 0xD8]] 0
        \<lparr>names = names two_spots,
           boxes = \<lparr>xyxy = [(1, 2, 3, 4), (71 / 2, 5, 80, 30), (10, 40, 60, 90)],
                    cls = [2, 0, 1],
                    conf = [2 / 5, 87 / 100, 1 / 2]\<rparr>\<rparr> =
       Inr ([Rect
               (Rect (Text (Blend (Rect (Rect (Decoded [0xFF, 0xD8]) (1, 2) (3, 4) (50, 50, 200) 1)
                                     (35, 0) (142, 5) (0, 200, 0) (- 1))
                               (35 / 100)
                               (Rect (Decoded [0xFF, 0xD8]) (1, 2) (3, 4) (50, 50, 200) 1)
                               (65 / 100) 0)
                         ''Free 0.87'' (39, 1) 0 (6 / 10) (255, 255, 255) 2)
                  (35, 5) (80, 30) (0, 200, 0) 3)
               (10, 40) (60, 90) (50, 50, 200) 1,
             Rect (Rect (Decoded [0xFF, 0xD8]) (1, 2) (3, 4) (50, 50, 200) 1)
               (35, 0) (142, 5) (0, 200, 0) (- 1)], 0)"
proof -
  have live: "(0 :: nat) < length [Decoded [0xFF, 0xD8]]" by simp
  have lens: "length [(1 :: rat, 2 :: rat, 3 :: rat, 4 :: rat)] = length [2 :: rat]"
    "length [2 :: rat] = length [2 / 5 :: rat]"
    by simp_all
  note inst = draw_detections_free [where nms = "names two_spots" and c = 0 and cv = cv_calls
      and \<sigma> = "[Decoded [0xFF, 0xD8]]" and img = 0 and cf = "87 / 100",
      OF two_spots_names(1) label_classes(1) live text_size_87]
  have single: "draw_detections cv_calls [Decoded [0xFF, 0xD8]] 0
        \<lparr>names = names two_spots,
           boxes = \<lparr>xyxy = [(10, 40, 60, 90)], cls = [0], conf = [87 / 100]\<rparr>\<rparr> =
       Inr ([Rect (Text (Blend (Rect (Decoded [0xFF, 0xD8]) (10, 21) (117, 40) (0, 200, 0) (- 1))
                            (35 / 100) (Decoded [0xFF, 0xD8]) (65 / 100) 0)
                      ''Free 0.87'' (14, 36) 0 (6 / 10) (255, 255, 255) 2)
                  (10, 40) (60, 90) (0, 200, 0) 3,
             Rect (Decoded [0xFF, 0xD8]) (10, 21) (117, 40) (0, 200, 0) (- 1)], 0)"
    using inst [OF lens, where ?bx1.0 = 10 and ?by1.0 = 40 and ?bx2.0 = 60 and ?by2.0 = 90,
        THEN conjunct1]
    by (simp add: py_int_values format_87 cv_calls_fields FONT_HERSHEY_SIMPLEX_def)
  have middle: "draw_detections cv_calls [Decoded [0xFF, 0xD8]] 0
        \<lparr>names = names two_spots,
           boxes = \<lparr>xyxy = [(1, 2, 3, 4), (71 / 2, 5, 80, 30), (10, 40, 60, 90)],
                    cls = [2, 0, 1],
                    conf = [2 / 5, 87 / 100, 1 / 2]\<rparr>\<rparr> =
       Inr ([Rect
               (Rect (Text (Blend (Rect (Rect (Decoded [0xFF, 0xD8]) (1, 2) (3, 4) (50, 50, 200) 1)
                                     (35, 0) (142, 5) (0, 200, 0) (- 1))
                               (35 / 100)
                               (Rect (Decoded [0xFF, 0xD8]) (1, 2) (3, 4) (50, 50, 200) 1)
                               (65 / 100) 0)
                         ''Free 0.87'' (39, 1) 0 (6 / 10) (255, 255, 255) 2)
                  (35, 5) (80, 30) (0, 200, 0) 3)
               (10, 40) (60, 90) (50, 50, 200) 1,
             Rect (Rect (Decoded [0xFF, 0xD8]) (1, 2) (3, 4) (50, 50, 200) 1)
               (35, 0) (142, 5) (0, 200, 0) (- 1)], 0)"
    using inst [OF lens, where ?bx1.0 = "71 / 2" and ?by1.0 = 5 and ?bx2.0 = 80 and ?by2.0 = 30
        and bs' = "[(10, 40, 60, 90)]" and cs' = "[1]" and cfs' = "[1 / 2]",
        THEN conjunct2]
    by (simp add: draw_detections_Cons draw_detections_Nil cone_box_calls occupied_box_calls
          py_int_values format_87 cv_calls_fields FONT_HERSHEY_SIMPLEX_def)
  from two_spots_names(1) label_classes(1) live text_size_87 single middle show ?thesis
    by (intro conjI)
qed

text \<open>
  Claim C7. For a detection classified Occupied or Unknown, the renderer draws the box
  with thickness 1 in \<open>(50, 50, 200)\<close> and nothing else: no text is written, nothing is
  blended and no scratch copy is made. This is what \<open>draw_detections\<close> returns for a
  result with this one detection, and for a detection at any place of a result it is what
  \<open>draw_detections\<close> does to the image as the detections before have left it, before it
  goes on with the detections after.
\<close>

theorem draw_detections_not_free:
  assumes named: "nms (py_int c) = Some nm"
    and other: "classify nm = Occupied \<or> classify nm = Unknown"
    and lens: "length bs = length cs" "length cs = length cfs"
  shows
    "draw_detections cv \<sigma> img
       \<lparr>names = nms, boxes = \<lparr>xyxy = [(bx1, by1, bx2, by2)], cls = [c], conf = [cf]\<rparr>\<rparr> =
     Inr (\<sigma>[img := rectangle cv (\<sigma> ! img) (py_int bx1, py_int by1) (py_int bx2, py_int by2)
                       (50, 50, 200) 1],
          img)
   \<and> draw_detections cv \<sigma> img
       \<lparr>names = nms,
          boxes = \<lparr>xyxy = bs @ (bx1, by1, bx2, by2) # bs', cls = cs @ c # cs', conf = cfs @ cf # cfs'\<rparr>\<rparr> =
     (case draw_detections cv \<sigma> img \<lparr>names = nms, boxes = \<lparr>xyxy = bs, cls = cs, conf = cfs\<rparr>\<rparr> of
        Inl e \<Rightarrow> Inl e
      | Inr (\<sigma>1, a) \<Rightarrow>
          draw_detections cv
            (\<sigma>1[img := rectangle cv (\<sigma>1 ! img) (py_int bx1, py_int by1) (py_int bx2, py_int by2)
                           (50, 50, 200) 1])
            img \<lparr>names = nms, boxes = \<lparr>xyxy = bs', cls = cs', conf = cfs'\<rparr>\<rparr>)"
proof (rule conjI)
  from other have "classify nm \<noteq> Free" by auto
  then have lab: "lower nm \<notin> FREE_LABELS" by (simp add: classify_Free_iff)
  note box = draw_box_other_store [where nms = nms and c = c, OF named lab]
  show "draw_detections cv \<sigma> img
       \<lparr>names = nms, boxes = \<lparr>xyxy = [(bx1, by1, bx2, by2)], cls = [c], conf = [cf]\<rparr>\<rparr> =
     Inr (\<sigma>[img := rectangle cv (\<sigma> ! img) (py_int bx1, py_int by1) (py_int bx2, py_int by2)
                       (50, 50, 200) 1],
          img)"
    by (simp only: draw_detections_Cons box sum.case draw_detections_Nil)
  show "draw_detections cv \<sigma> img
       \<lparr>names = nms,
          boxes = \<lparr>xyxy = bs @ (bx1, by1, bx2, by2) # bs', cls = cs @ c # cs', conf = cfs @ cf # cfs'\<rparr>\<rparr> =
     (case draw_detections cv \<sigma> img \<lparr>names = nms, boxes = \<lparr>xyxy = bs, cls = cs, conf = cfs\<rparr>\<rparr> of
        Inl e \<Rightarrow> Inl e
      | Inr (\<sigma>1, a) \<Rightarrow>
          draw_detections cv
            (\<sigma>1[img := rectangle cv (\<sigma>1 ! img) (py_int bx1, py_int by1) (py_int bx2, py_int by2)
                           (50, 50, 200) 1])
            img \<lparr>names = nms, boxes = \<lparr>xyxy = bs', cls = cs', conf = cfs'\<rparr>\<rparr>)"
    by (simp add: draw_detections_at [OF lens] box split: sum.splits)
qed

theorem draw_detections_not_free_witness:
  "names two_spots (py_int 1) = Some ''occupied'' \<and> classify ''occupied'' = Occupied
   \<and> names two_spots (py_int 2) = Some ''cone'' \<and> classify ''cone'' = Unknown
   \<and> draw_detections cv_calls [Decoded [0xFF, 0xD8]] 0
        \<lparr>names = names two_spots,
           boxes = \<lparr>xyxy = [(71 / 2, 5, 80, 30)], cls = [1], conf = [1 / 2]\<rparr>\<rparr> =
       Inr ([Rect (Decoded [0xFF, 0xD8]) (35, 5) (80, 30) (50, 50, 200) 1], 0)
   \<and> draw_detections cv_calls [Decoded [0xFF, 0xD8]] 0
        \<lparr>names = names two_spots,
           boxes = \<lparr>xyxy = [(1, 2, 3, 4)], cls = [2], conf = [2 / 5]\<rparr>\<rparr> =
       Inr ([Rect (Decoded [0xFF, 0xD8]) (1, 2) (3, 4) (50, 50, 200) 1], 0)
   \<and> draw_detections cv_calls [Decoded [0xFF, 0xD8]] 0 two_spots =
       Inr ([Rect
               (Rect
                  (Rect (Text (Blend (Rect (Decoded [0xFF, 0xD8]) (10, 21) (117, 40) (0, 200, 0) (- 1))
                                  (35 / 100) (Decoded [0xFF, 0xD8]) (65 / 100) 0)
                            ''Free 0.87'' (14, 36) 0 (6 / 10) (255, 255, 255) 2)
                     (10, 40) (60, 90) (0, 200, 0) 3)
                  (35, 5) (80, 30) (50, 50, 200) 1)
               (1, 2) (3, 4) (50, 50, 200) 1,
             Rect (Decoded [0xFF, 0xD8]) (10, 21) (117, 40) (0, 200, 0) (- 1)], 0)"
proof -
  have lens0: "length ([] :: bbox list) = length ([] :: rat list)"
    "length ([] :: rat list) = length ([] :: rat list)"
    by simp_all
  have lens1: "length [(10 :: rat, 40 :: rat, 60 :: rat, 90 :: rat)] = length [0 :: rat]"
    "length [0 :: rat] = length [87 / 100 :: rat]"
    by simp_all
  note occ = draw_detections_not_free [where nms = "names two_spots" and c = 1 and cv = cv_calls
      and \<sigma> = "[Decoded [0xFF, 0xD8]]" and img = 0 and cf = "1 / 2"
      and ?bx1.0 = "71 / 2" and ?by1.0 = 5 and ?bx2.0 = 80 and ?by2.0 = 30,
      OF two_spots_names(2) disjI1, OF label_classes(2)]
  note cone = draw_detections_not_free [where nms = "names two_spots" and c = 2 and cv = cv_calls
      and \<sigma> = "[Decoded [0xFF, 0xD8]]" and img = 0 and cf = "2 / 5"
      and ?bx1.0 = 1 and ?by1.0 = 2 and ?bx2.0 = 3 and ?by2.0 = 4,
      OF two_spots_names(3) disjI2, OF label_classes(3)]
  have a: "draw_detections cv_calls [Decoded [0xFF, 0xD8]] 0
        \<lparr>names = names two_spots,
           boxes = \<lparr>xyxy = [(71 / 2, 5, 80, 30)], cls = [1], conf = [1 / 2]\<rparr>\<rparr> =
       Inr ([Rect (Decoded [0xFF, 0xD8]) (35, 5) (80, 30) (50, 50, 200) 1], 0)"
    using occ [OF lens0, THEN conjunct1] by (simp add: py_int_values cv_calls_fields)
  have b: "draw_detections cv_calls [Decoded [0xFF, 0xD8]] 0
        \<lparr>names = names two_spots,
           boxes = \<lparr>xyxy = [(1, 2, 3, 4)], cls = [2], conf = [2 / 5]\<rparr>\<rparr> =
       Inr ([Rect (Decoded [0xFF, 0xD8]) (1, 2) (3, 4) (50, 50, 200) 1], 0)"
    using cone [OF lens0, THEN conjunct1] by (simp add: py_int_values cv_calls_fields)
  have whole: "two_spots =
      \<lparr>names = names two_spots,
         boxes = \<lparr>xyxy = [(10, 40, 60, 90)] @ (71 / 2, 5, 80, 30) # [(1, 2, 3, 4)],
                  cls = [0] @ 1 # [2],
                  conf = [87 / 100] @ (1 / 2) # [2 / 5]\<rparr>\<rparr>"
    by (simp add: two_spots_def)
  have c: "draw_detections cv_calls [Decoded [0xFF, 0xD8]] 0 two_spots =
       Inr ([Rect
               (Rect
                  (Rect (Text (Blend (Rect (Decoded [0xFF, 0xD8]) (10, 21) (117, 40) (0, 200, 0) (- 1))
                                  (35 / 100) (Decoded [0xFF, 0xD8]) (65 / 100) 0)
                            ''Free 0.87'' (14, 36) 0 (6 / 10) (255, 255, 255) 2)
                     (10, 40) (60, 90) (0, 200, 0) 3)
                  (35, 5) (80, 30) (50, 50, 200) 1)
               (1, 2) (3, 4) (50, 50, 200) 1,
             Rect (Decoded [0xFF, 0xD8]) (10, 21) (117, 40) (0, 200, 0) (- 1)], 0)"
    unfolding whole [THEN arg_cong, of "draw_detections cv_calls [Decoded [0xFF, 0xD8]] 0"]
      occ [OF lens1, where bs' = "[(1, 2, 3, 4)]" and cs' = "[2]" and cfs' = "[2 / 5]", THEN conjunct2]
    by (simp add: draw_detections_Cons draw_detections_Nil free_box_calls cone_box_calls
          py_int_values cv_calls_fields nth_append)
  from two_spots_names(2) label_classes(2) two_spots_names(3) label_classes(3) a b c show ?thesis
    by (intro conjI)
qed

text \<open>
  Claim C9. What \<open>draw_detections\<close> returns, an image or an exception, is determined by
  the pixels of the image it is given and by the detector result: two calls on arrays of
  equal content return equal images, whatever else the two stores hold.
\<close>

theorem draw_detections_deterministic:
  assumes "a1 < length \<sigma>1" and "a2 < length \<sigma>2" and "\<sigma>1 ! a1 = \<sigma>2 ! a2"
  shows "returned_image (draw_detections cv \<sigma>1 a1 result)
           = returned_image (draw_detections cv \<sigma>2 a2 result)"
  using draw_loop_content [OF assms, of cv "names result"
      "zip (xyxy (boxes result)) (zip (cls (boxes result)) (conf (boxes result)))"]
  by (auto simp: returned_image_def draw_detections_def Let_def)

theorem draw_detections_deterministic_witness:
  "(0 :: nat) < length [Decoded [1]] \<and> (1 :: nat) < length [Decoded [9], Decoded [1], Decoded [7]]
   \<and> [Decoded [1]] ! 0 = [Decoded [9], Decoded [1], Decoded [7]] ! 1
   \<and> returned_image (draw_detections cv_calls [Decoded [1]] 0 two_spots)
       = returned_image (draw_detections cv_calls [Decoded [9], Decoded [1], Decoded [7]] 1 two_spots)"
proof -
  have l1: "(0 :: nat) < length [Decoded [1]]" by simp
  have l2: "(1 :: nat) < length [Decoded [9], Decoded [1], Decoded [7]]" by simp
  have same: "[Decoded [1]] ! 0 = [Decoded [9], Decoded [1], Decoded [7]] ! 1" by simp
  from l1 l2 same draw_detections_deterministic [OF l1 l2 same, of cv_calls two_spots]
  show ?thesis by (intro conjI)
qed




end
